theory Spec2Isabelle
  imports Main
begin

section \<open>Python values used by turingmachine.py\<close>

text \<open>
  A tape cell holds either a Python \<open>str\<close> or \<open>None\<close> (the blank). Control states are
  integers, as the constructor's docstring says; the direction of a table entry is an
  arbitrary Python string, of which the code recognises \<open>'R'\<close>, \<open>'L'\<close> and \<open>'S'\<close>.
\<close>

type_synonym symbol = string
type_synonym cell = "symbol option"
type_synonym state = int

datatype py_error = IndexError | KeyError

text \<open>
  Python list subscription \<open>xs[i]\<close> and item assignment \<open>xs[i] = v\<close>: a negative
  index counts from the end, anything outside \<open>-len(xs) .. len(xs) - 1\<close> raises IndexError.
\<close>

definition index_ok :: "'a list \<Rightarrow> int \<Rightarrow> bool" where
  "index_ok xs i = (- int (length xs) \<le> i \<and> i < int (length xs))"

definition index_pos :: "'a list \<Rightarrow> int \<Rightarrow> nat" where
  "index_pos xs i = nat (if i < 0 then int (length xs) + i else i)"

definition getitem :: "'a list \<Rightarrow> int \<Rightarrow> py_error + 'a" where
  "getitem xs i = (if index_ok xs i then Inr (xs ! index_pos xs i) else Inl IndexError)"

definition setitem :: "'a list \<Rightarrow> int \<Rightarrow> 'a \<Rightarrow> py_error + 'a list" where
  "setitem xs i v = (if index_ok xs i then Inr (xs[index_pos xs i := v]) else Inl IndexError)"

section \<open>class Tape\<close>

text \<open>Tape.direction and Tape.char_codes.\<close>

definition right :: string where "right = ''R''"
definition left :: string where "left = ''L''"
definition stay :: string where "stay = ''S''"

definition RED :: string where "RED = CHR 0x1B # ''[91m''"
definition BOLD :: string where "BOLD = CHR 0x1B # ''[1m''"
definition UNDERLINE :: string where "UNDERLINE = CHR 0x1B # ''[4m''"
definition END :: string where "END = CHR 0x1B # ''[0m''"

text \<open>The attributes \<open>_list\<close>, \<open>_loc\<close>, \<open>_min_loc\<close> and \<open>_max_loc\<close>.\<close>

record Tape =
  tape_list :: "cell list"
  tape_loc :: int
  tape_min_loc :: int
  tape_max_loc :: int

definition get_max_loc :: "Tape \<Rightarrow> int" where
  "get_max_loc t = int (length (tape_list t)) - 1"

text \<open>
  \<open>Tape(initial_state, start_size)\<close>. An argument that is \<open>None\<close> is \<open>None\<close> here; the
  tests \<open>if initial_state\<close> and \<open>if start_size\<close> are Python truthiness (a non-empty
  string, a non-zero integer). \<open>list(s)\<close> splits a string into its one-character strings
  and \<open>[None] * n\<close> is empty for \<open>n \<le> 0\<close>.
\<close>

definition Tape_init :: "string option \<Rightarrow> int option \<Rightarrow> Tape" where
  "Tape_init initial_state start_size =
     (let l = (case initial_state of
                 Some (c # cs) \<Rightarrow> map (\<lambda>x. Some [x]) (c # cs)
               | _ \<Rightarrow> (case start_size of
                         Some n \<Rightarrow> (if n \<noteq> 0 then replicate (nat n) None else [])
                       | None \<Rightarrow> []));
          t = \<lparr>tape_list = l, tape_loc = 0, tape_min_loc = 0, tape_max_loc = 0\<rparr>
      in t\<lparr>tape_max_loc := get_max_loc t\<rparr>)"

definition expand_left :: "int \<Rightarrow> Tape \<Rightarrow> Tape" where
  "expand_left n_spaces t =
     (let t1 = t\<lparr>tape_loc := tape_loc t + n_spaces\<rparr>;
          new_left = replicate (nat n_spaces) None;
          t2 = t1\<lparr>tape_list := new_left @ tape_list t1\<rparr>
      in t2\<lparr>tape_max_loc := get_max_loc t2\<rparr>)"

definition expand_right :: "int \<Rightarrow> Tape \<Rightarrow> Tape" where
  "expand_right n_spaces t =
     (let new_right = replicate (nat n_spaces) None;
          t1 = t\<lparr>tape_list := tape_list t @ new_right\<rparr>
      in t1\<lparr>tape_max_loc := get_max_loc t1\<rparr>)"

definition move_left :: "Tape \<Rightarrow> Tape" where
  "move_left t =
     (let t1 = (if tape_loc t = tape_min_loc t then expand_left 1 t else t)
      in t1\<lparr>tape_loc := tape_loc t1 - 1\<rparr>)"

definition move_right :: "Tape \<Rightarrow> Tape" where
  "move_right t =
     (let t1 = (if tape_loc t = tape_max_loc t then expand_right 1 t else t)
      in t1\<lparr>tape_loc := tape_loc t1 + 1\<rparr>)"

definition get_char :: "Tape \<Rightarrow> py_error + cell" where
  "get_char t = getitem (tape_list t) (tape_loc t)"

text \<open>A failed assignment raises before the list is touched: the tape is as it was.\<close>

definition set_char :: "cell \<Rightarrow> Tape \<Rightarrow> py_error + Tape" where
  "set_char v t =
     (case setitem (tape_list t) (tape_loc t) v of
        Inl e \<Rightarrow> Inl e
      | Inr l \<Rightarrow> Inr (t\<lparr>tape_list := l\<rparr>))"

definition get_string :: "Tape \<Rightarrow> string" where
  "get_string t = concat (map the (filter (\<lambda>item. item \<noteq> None) (tape_list t)))"

text \<open>\<open>draw\<close> prints one piece of text per cell and a final blank with a carriage return;
  the model returns everything it prints, in order.\<close>

definition draw :: "Tape \<Rightarrow> string" where
  "draw t =
     concat (map (\<lambda>(i, item).
                    let out = (case item of
                                 Some s \<Rightarrow> UNDERLINE @ s @ END
                               | None \<Rightarrow> UNDERLINE @ '' '' @ END)
                    in if int i = tape_loc t then RED @ out @ END else out)
                 (enumerate 0 (tape_list t)))
     @ '' '' @ [CHR 0x0D]"

section \<open>class TuringMachine\<close>

type_synonym transitions = "state \<times> cell \<rightharpoonup> state \<times> cell \<times> string"

record TuringMachine =
  tape :: Tape
  states :: "state list"
  current_state :: state
  current_input :: cell
  accepting_states :: "state list"
  rejecting_states :: "state list"
  transition_fn :: transitions

text \<open>The constructor reads the head cell, so it raises on a tape whose head has no cell.\<close>

definition TuringMachine_init ::
  "Tape \<Rightarrow> state \<Rightarrow> state list \<Rightarrow> state list \<Rightarrow> state list \<Rightarrow> transitions
     \<Rightarrow> py_error + TuringMachine" where
  "TuringMachine_init initial_tape initial_state sts accepting rejecting table =
     (case get_char initial_tape of
        Inl e \<Rightarrow> Inl e
      | Inr c \<Rightarrow> Inr \<lparr>tape = initial_tape, states = sts, current_state = initial_state,
                      current_input = c, accepting_states = accepting,
                      rejecting_states = rejecting, transition_fn = table\<rparr>)"

text \<open>
  \<open>advance\<close> mutates the machine statement by statement; an exception leaves it as it
  was at the raise. \<open>Inl (e, m')\<close> is a raise of \<open>e\<close> with the machine left as \<open>m'\<close>,
  \<open>Inr m'\<close> a normal return. A direction that is none of \<open>'R'\<close>, \<open>'L'\<close>, \<open>'S'\<close> falls
  through the chain of tests.
\<close>

definition advance :: "TuringMachine \<Rightarrow> py_error \<times> TuringMachine + TuringMachine" where
  "advance m =
     (case get_char (tape m) of
        Inl e \<Rightarrow> Inl (e, m)
      | Inr c \<Rightarrow>
          (let m1 = m\<lparr>current_input := c\<rparr>;
               current_config = (current_state m1, current_input m1)
           in case transition_fn m1 current_config of
                None \<Rightarrow> Inl (KeyError, m1)
              | Some (next_state, char_out, direction) \<Rightarrow>
                  (let m2 = m1\<lparr>current_state := next_state\<rparr>
                   in case set_char char_out (tape m2) of
                        Inl e \<Rightarrow> Inl (e, m2)
                      | Inr t \<Rightarrow>
                          (let m3 = m2\<lparr>tape := t\<rparr>
                           in if direction = right then Inr (m3\<lparr>tape := move_right (tape m3)\<rparr>)
                              else if direction = left then Inr (m3\<lparr>tape := move_left (tape m3)\<rparr>)
                              else if direction = stay then Inr m3
                              else Inr m3))))"

text \<open>
  What \<open>run\<close> prints: the five values of the \<open>print_configs\<close> line, in the order of the
  format string, or the text of a \<open>draw\<close>. The calls of \<open>sleep\<close> only delay and are left out.
\<close>

datatype printed = Config state cell cell state string | Drawn string

type_synonym run_result = "printed list \<times> TuringMachine \<times> (py_error + string)"

text \<open>
  The loop of \<open>run\<close>, with everything printed so far as an accumulator. The result is the
  output, the machine as \<open>run\<close> leaves it, and either the exception raised or the string
  returned; \<open>None\<close> is a loop that never ends. With \<open>print_configs\<close> the local \<open>draw\<close>
  is set to \<open>False\<close>, so the test \<open>draw == True\<close> fails in that iteration and ever after.
\<close>

partial_function (option) run_loop ::
  "TuringMachine \<Rightarrow> bool \<Rightarrow> bool \<Rightarrow> printed list \<Rightarrow> run_result option" where
  "run_loop m draw_p print_configs out =
     (if current_state m \<notin> set (accepting_states m) then
        (case advance m of
           Inl (e, m1) \<Rightarrow> Some (out, m1, Inl e)
         | Inr m1 \<Rightarrow>
             (if print_configs then
                (case transition_fn m1 (current_state m1, current_input m1) of
                   None \<Rightarrow> Some (out, m1, Inl KeyError)
                 | Some (next_state, output, direction) \<Rightarrow>
                     run_loop m1 False print_configs
                       (out @ [Config (current_state m1) (current_input m1)
                                 output next_state direction]))
              else if draw_p then
                run_loop m1 draw_p print_configs (out @ [Drawn (draw (tape m1))])
              else run_loop m1 draw_p print_configs out))
      else Some (out, m, Inr (get_string (tape m))))"

declare run_loop.simps [code]

definition run :: "TuringMachine \<Rightarrow> bool \<Rightarrow> bool \<Rightarrow> run_result option" where
  "run m draw_p print_configs = run_loop m draw_p print_configs []"

section \<open>The demonstration under \<open>__main__\<close>\<close>

definition ascii_lowercase :: string where
  "ascii_lowercase = ''abcdefghijklmnopqrstuvwxyz''"

text \<open>\<open>cipher\<close> takes and returns a one-character string; \<open>%\<close> is Python's floored
  remainder, which is \<open>mod\<close> on \<open>int\<close>.\<close>

definition cipher :: "char \<Rightarrow> int \<Rightarrow> char" where
  "cipher c shift =
     (let byte = of_char c - of_char CHR ''a'';
          byte = (byte + shift) mod int (length ascii_lowercase)
      in char_of (byte + of_char CHR ''a''))"

text \<open>The two loops that fill the dictionary, entry by entry and in the source's order.\<close>

definition letter_entries :: "int \<Rightarrow> transitions \<Rightarrow> char \<Rightarrow> transitions" where
  "letter_entries shift tr c =
     tr((0, Some [c]) \<mapsto> (1, Some [c], stay),
        (1, Some [c]) \<mapsto> (1, Some [cipher c shift], right),
        (1, None) \<mapsto> (2, None, stay))"

definition space_entry :: "transitions \<Rightarrow> state \<Rightarrow> transitions" where
  "space_entry tr s = tr((s, Some '' '') \<mapsto> (s, Some '' '', right))"

definition demo_transitions :: "int \<Rightarrow> state list \<Rightarrow> transitions" where
  "demo_transitions shift sts =
     foldl space_entry (foldl (letter_entries shift) Map.empty ascii_lowercase) sts"

text \<open>One machine of the demonstration: a fresh tape, the table for the shift, a run
  with drawing. An exception of the constructor ends it with no output.\<close>

definition demo_machine :: "string \<Rightarrow> int \<Rightarrow> py_error + TuringMachine" where
  "demo_machine text shift =
     (let t = Tape_init (Some text) None;
          sts = [0, 1, 2]
      in TuringMachine_init t 0 sts [2] [] (demo_transitions shift sts))"

definition demo_run :: "string \<Rightarrow> int \<Rightarrow> (py_error + string) option" where
  "demo_run text shift =
     (case demo_machine text shift of
        Inl e \<Rightarrow> Some (Inl e)
      | Inr m \<Rightarrow> map_option (\<lambda>(out, m', r). r) (run m True False))"

text \<open>Encryption with \<open>shift\<close>, then decryption of its result with \<open>-shift\<close>: the pair
  of ciphertext and recovered plaintext.\<close>

definition main :: "string \<Rightarrow> int \<Rightarrow> (py_error + string \<times> string) option" where
  "main plaintext shift =
     (case demo_run plaintext shift of
        None \<Rightarrow> None
      | Some (Inl e) \<Rightarrow> Some (Inl e)
      | Some (Inr ciphertext) \<Rightarrow>
          (case demo_run ciphertext (- shift) of
             None \<Rightarrow> None
           | Some (Inl e) \<Rightarrow> Some (Inl e)
           | Some (Inr plaintext') \<Rightarrow> Some (Inr (ciphertext, plaintext'))))"


section \<open>Notions used to state the properties\<close>

text \<open>
  A client of a tape calls its four public operations in any order. A sequence of calls
  stops at the first exception.
\<close>

datatype tape_op = Move_left | Move_right | Get_char | Set_char cell

fun apply_op :: "tape_op \<Rightarrow> Tape \<Rightarrow> py_error + Tape" where
  "apply_op Move_left t = Inr (move_left t)"
| "apply_op Move_right t = Inr (move_right t)"
| "apply_op Get_char t = (case get_char t of Inl e \<Rightarrow> Inl e | Inr c \<Rightarrow> Inr t)"
| "apply_op (Set_char v) t = set_char v t"

fun apply_ops :: "tape_op list \<Rightarrow> Tape \<Rightarrow> py_error + Tape" where
  "apply_ops [] t = Inr t"
| "apply_ops (x # xs) t = (case apply_op x t of Inl e \<Rightarrow> Inl e | Inr t' \<Rightarrow> apply_ops xs t')"

text \<open>
  The head is within the bounds the tape records, and the head addresses a cell of the list
  without the wrap-around of a negative index. \<open>tape_inv\<close> adds that the recorded
  bounds are those of the list.
\<close>

definition head_in_bounds :: "Tape \<Rightarrow> bool" where
  "head_in_bounds t = (tape_min_loc t \<le> tape_loc t \<and> tape_loc t \<le> tape_max_loc t)"

definition head_on_storage :: "Tape \<Rightarrow> bool" where
  "head_on_storage t = (0 \<le> tape_loc t \<and> tape_loc t < int (length (tape_list t)))"

definition tape_inv :: "Tape \<Rightarrow> bool" where
  "tape_inv t = (tape_min_loc t = 0 \<and> tape_max_loc t = int (length (tape_list t)) - 1
                 \<and> head_in_bounds t)"

text \<open>
  The serialization in the words of the description: the symbols of the cells that are not
  blank, from left to right.
\<close>

fun nonblank_symbols :: "cell list \<Rightarrow> symbol list" where
  "nonblank_symbols [] = []"
| "nonblank_symbols (None # cs) = nonblank_symbols cs"
| "nonblank_symbols (Some s # cs) = s # nonblank_symbols cs"

text \<open>
  Sequences of head moves. A move is made at the boundary when the head stands on the
  outermost index the tape records on the side it moves to (a boundary crossing); it leaves
  the bounds when the index it moves to is outside \<open>[_min_loc, _max_loc]\<close>.
  \<open>count_moves P\<close> counts the moves of a sequence made in a situation \<open>P\<close>.
\<close>

datatype head_move = Go_left | Go_right

fun move :: "head_move \<Rightarrow> Tape \<Rightarrow> Tape" where
  "move Go_left t = move_left t"
| "move Go_right t = move_right t"

fun moves :: "head_move list \<Rightarrow> Tape \<Rightarrow> Tape" where
  "moves [] t = t"
| "moves (mv # ms) t = moves ms (move mv t)"

fun at_boundary :: "head_move \<Rightarrow> Tape \<Rightarrow> bool" where
  "at_boundary Go_left t = (tape_loc t = tape_min_loc t)"
| "at_boundary Go_right t = (tape_loc t = tape_max_loc t)"

fun leaves_bounds :: "head_move \<Rightarrow> Tape \<Rightarrow> bool" where
  "leaves_bounds Go_left t = (tape_loc t - 1 < tape_min_loc t)"
| "leaves_bounds Go_right t = (tape_max_loc t < tape_loc t + 1)"

fun count_moves :: "(head_move \<Rightarrow> Tape \<Rightarrow> bool) \<Rightarrow> head_move list \<Rightarrow> Tape \<Rightarrow> nat" where
  "count_moves P [] t = 0"
| "count_moves P (mv # ms) t = (if P mv t then 1 else 0) + count_moves P ms (move mv t)"

text \<open>
  \<open>n\<close> calls of \<open>advance\<close>, stopping at the first exception; the test of the loop of
  \<open>run\<close>; and whether the dictionary lookup in the \<open>print_configs\<close> branch of
  \<open>run\<close> finds an entry for the machine as a step has left it.
\<close>

fun advance_n :: "nat \<Rightarrow> TuringMachine \<Rightarrow> py_error \<times> TuringMachine + TuringMachine" where
  "advance_n 0 m = Inr m"
| "advance_n (Suc n) m = (case advance m of Inl x \<Rightarrow> Inl x | Inr m1 \<Rightarrow> advance_n n m1)"

definition accepting :: "TuringMachine \<Rightarrow> bool" where
  "accepting m = (current_state m \<in> set (accepting_states m))"

definition config_lookup_ok :: "TuringMachine \<Rightarrow> bool" where
  "config_lookup_ok m = (transition_fn m (current_state m, current_input m) \<noteq> None)"

text \<open>
  How a call of \<open>run\<close> that ends has ended after \<open>n\<close> full iterations: it returned the
  serialization in an accepting state, or \<open>advance\<close> raised in iteration \<open>n + 1\<close>, or the
  lookup of the \<open>print_configs\<close> branch raised there.
\<close>

definition run_ends :: "nat \<Rightarrow> TuringMachine \<Rightarrow> bool \<Rightarrow> run_result \<Rightarrow> bool" where
  "run_ends n m p y =
     (case y of (out', m', r) \<Rightarrow>
        (case r of
           Inr s \<Rightarrow> advance_n n m = Inr m' \<and> accepting m' \<and> s = get_string (tape m')
         | Inl e \<Rightarrow> advance_n (Suc n) m = Inl (e, m')
                    \<or> (p \<and> advance_n (Suc n) m = Inr m' \<and> \<not> config_lookup_ok m' \<and> e = KeyError)))"

section \<open>The tape\<close>

subsection \<open>The head stays on the storage\<close>

lemma tape_inv_on_storage: "tape_inv t \<Longrightarrow> head_on_storage t"
  by (simp add: tape_inv_def head_in_bounds_def head_on_storage_def)

lemma on_storage_index_ok: "head_on_storage t \<Longrightarrow> index_ok (tape_list t) (tape_loc t)"
  by (simp add: head_on_storage_def index_ok_def)

lemma tape_inv_init:
  "tape_list (Tape_init initial_state start_size) \<noteq> [] \<Longrightarrow> tape_inv (Tape_init initial_state start_size)"
  by (auto simp: Tape_init_def tape_inv_def head_in_bounds_def get_max_loc_def Let_def
      split: option.splits list.splits if_splits)

lemma tape_inv_move_left: "tape_inv t \<Longrightarrow> tape_inv (move_left t)"
  by (auto simp: tape_inv_def head_in_bounds_def move_left_def expand_left_def get_max_loc_def Let_def)

lemma tape_inv_move_right: "tape_inv t \<Longrightarrow> tape_inv (move_right t)"
  by (auto simp: tape_inv_def head_in_bounds_def move_right_def expand_right_def get_max_loc_def Let_def)

lemma get_char_ok: "index_ok (tape_list t) (tape_loc t) \<Longrightarrow> \<exists>c. get_char t = Inr c"
  by (simp add: get_char_def getitem_def)

lemma set_char_ok:
  "index_ok (tape_list t) (tape_loc t) \<Longrightarrow>
   set_char v t = Inr (t\<lparr>tape_list := (tape_list t)[index_pos (tape_list t) (tape_loc t) := v]\<rparr>)"
  by (simp add: set_char_def setitem_def)

lemma tape_inv_set_char: "tape_inv t \<Longrightarrow> \<exists>t'. set_char v t = Inr t' \<and> tape_inv t'"
  using set_char_ok [OF on_storage_index_ok [OF tape_inv_on_storage], of t v]
  by (auto simp: tape_inv_def head_in_bounds_def)

lemma tape_inv_apply_op: "tape_inv t \<Longrightarrow> \<exists>t'. apply_op x t = Inr t' \<and> tape_inv t'"
proof (cases x)
  case Get_char
  assume "tape_inv t"
  then obtain c where "get_char t = Inr c"
    using get_char_ok on_storage_index_ok tape_inv_on_storage by blast
  with \<open>tape_inv t\<close> Get_char show ?thesis by simp
qed (simp_all add: tape_inv_move_left tape_inv_move_right tape_inv_set_char)

lemma tape_inv_apply_ops: "tape_inv t \<Longrightarrow> \<exists>t'. apply_ops xs t = Inr t' \<and> tape_inv t'"
proof (induction xs arbitrary: t)
  case Nil
  then show ?case by simp
next
  case (Cons x xs)
  from tape_inv_apply_op [OF Cons.prems, of x]
  obtain t1 where t1: "apply_op x t = Inr t1" "tape_inv t1" by blast
  from Cons.IH [OF t1(2)] t1(1) show ?case by simp
qed

text \<open>
  Claim C1, as the code has it. For every tape the constructor builds with a non-empty
  list (a non-empty initial string, or a positive start size), and every finite sequence
  of \<open>move_left\<close>, \<open>move_right\<close>, \<open>get_char\<close> and \<open>set_char\<close> calls, no call raises, and
  after each call (after every prefix of the sequence) the head index lies within
  \<open>[_min_loc, _max_loc]\<close> and addresses a cell of the list.
\<close>

theorem tape_ops_never_fail:
  assumes "tape_list (Tape_init initial_state start_size) \<noteq> []"
    and "k \<le> length ops"
  shows "\<exists>t. apply_ops (take k ops) (Tape_init initial_state start_size) = Inr t
             \<and> head_in_bounds t \<and> head_on_storage t"
proof -
  obtain t where t: "apply_ops (take k ops) (Tape_init initial_state start_size) = Inr t"
    "tape_inv t"
    using tape_inv_apply_ops [OF tape_inv_init [OF assms(1)]] by blast
  from t(2) have "head_in_bounds t" by (simp add: tape_inv_def)
  with t tape_inv_on_storage show ?thesis by blast
qed

lemma init_hello: "tape_list (Tape_init (Some ''hello'') None) = map (\<lambda>x. Some [x]) ''hello''"
  by (simp add: Tape_init_def get_max_loc_def)

text \<open>
  The theorem at the default tape \<open>'hello'\<close>, after three of four calls.
\<close>

theorem tape_ops_never_fail_witness:
  "\<exists>t. apply_ops (take 3 [Move_left, Set_char (Some ''x''), Move_right, Get_char])
          (Tape_init (Some ''hello'') None) = Inr t
       \<and> head_in_bounds t \<and> head_on_storage t"
  using tape_ops_never_fail [of "Some ''hello''" None 3 "[Move_left, Set_char (Some ''x''), Move_right, Get_char]"]
  by (simp add: init_hello)

text \<open>
  The constructor also builds the empty tape (\<open>Tape('')\<close>, \<open>Tape(None)\<close>): its list is
  empty, \<open>_max_loc\<close> is \<open>-1\<close> and the head index \<open>0\<close> is outside the bounds. There the
  first \<open>get_char\<close> or \<open>set_char\<close> raises IndexError, and \<open>move_right\<close> leaves the head
  outside the bounds.
\<close>

theorem empty_tape_counterexample:
  "apply_ops [Get_char] (Tape_init None None) = Inl IndexError
   \<and> apply_ops [Set_char (Some ''a'')] (Tape_init (Some '''') None) = Inl IndexError
   \<and> \<not> head_in_bounds (Tape_init None None)
   \<and> \<not> head_in_bounds (move_right (Tape_init None None))"
  by (simp add: Tape_init_def get_max_loc_def get_char_def getitem_def set_char_def setitem_def
      index_ok_def head_in_bounds_def move_right_def)

subsection \<open>Writing and reading a cell\<close>

text \<open>
  Claim C9, as the code has it. For every tape whose head index addresses a cell of the
  list (as Python indexes it: \<open>-len \<le> _loc < len\<close>) and every symbol \<open>x\<close>, the blank
  included, \<open>set_char(x)\<close> returns and the \<open>get_char()\<close> that follows returns \<open>x\<close>.
\<close>

theorem set_then_get:
  assumes "index_ok (tape_list t) (tape_loc t)"
  shows "\<exists>t'. set_char x t = Inr t' \<and> get_char t' = Inr x"
  using assms
  by (auto simp: set_char_def setitem_def get_char_def getitem_def index_ok_def index_pos_def)

text \<open>
  The theorem at the tape \<open>'ab'\<close>, writing the blank.
\<close>

theorem set_then_get_witness:
  "index_ok (tape_list (Tape_init (Some ''ab'') None)) (tape_loc (Tape_init (Some ''ab'') None))
   \<and> (\<exists>t'. set_char None (Tape_init (Some ''ab'') None) = Inr t' \<and> get_char t' = Inr None)"
  using set_then_get [of "Tape_init (Some ''ab'') None" None]
  by (simp add: Tape_init_def get_max_loc_def index_ok_def)

text \<open>
  On the empty tape the head addresses no cell and \<open>set_char\<close> raises.
\<close>

theorem set_char_empty_tape_counterexample:
  "set_char (Some ''a'') (Tape_init None None) = Inl IndexError"
  by (simp add: Tape_init_def get_max_loc_def set_char_def setitem_def index_ok_def)

subsection \<open>Serialization\<close>

lemma join_nonblank:
  "concat (map the (filter (\<lambda>item. item \<noteq> None) cs)) = concat (nonblank_symbols cs)"
  by (induction cs rule: nonblank_symbols.induct) simp_all

text \<open>
  Claim C7. \<open>get_string\<close> is the concatenation of the symbols of the non-blank cells in
  the order of the list; a blank cell contributes nothing wherever it stands, and a symbol
  stands between what is left and what is right of it.
\<close>

theorem get_string_omits_blanks:
  "get_string t = concat (nonblank_symbols (tape_list t))
   \<and> get_string (t\<lparr>tape_list := xs @ None # ys\<rparr>) = get_string (t\<lparr>tape_list := xs @ ys\<rparr>)
   \<and> get_string (t\<lparr>tape_list := xs @ Some s # ys\<rparr>)
       = get_string (t\<lparr>tape_list := xs\<rparr>) @ s @ get_string (t\<lparr>tape_list := ys\<rparr>)"
proof -
  have "get_string t = concat (nonblank_symbols (tape_list t))"
    unfolding get_string_def by (rule join_nonblank)
  then show ?thesis by (simp add: get_string_def)
qed

subsection \<open>Growth\<close>

lemma move_list:
  "tape_list (move mv t) =
     (if at_boundary mv t
      then (case mv of Go_left \<Rightarrow> None # tape_list t | Go_right \<Rightarrow> tape_list t @ [None])
      else tape_list t)"
  by (cases mv) (simp_all add: move_left_def move_right_def expand_left_def expand_right_def Let_def)

lemma move_length:
  "length (tape_list (move mv t)) = length (tape_list t) + (if at_boundary mv t then 1 else 0)"
  by (simp add: move_list split: head_move.split)

lemma moves_length:
  "length (tape_list (moves ms t)) = length (tape_list t) + count_moves at_boundary ms t"
  by (induction ms arbitrary: t) (simp_all add: move_length)

lemma count_moves_le: "count_moves P ms t \<le> length ms"
  by (induction ms arbitrary: t) (simp_all add: le_SucI)

lemma boundary_leaves: "at_boundary mv t \<Longrightarrow> leaves_bounds mv t"
  by (cases mv) simp_all

lemma tape_inv_move: "tape_inv t \<Longrightarrow> tape_inv (move mv t)"
  by (cases mv) (simp_all add: tape_inv_move_left tape_inv_move_right)

lemma inv_leaves_boundary: "tape_inv t \<Longrightarrow> leaves_bounds mv t \<Longrightarrow> at_boundary mv t"
  by (cases mv) (auto simp: tape_inv_def head_in_bounds_def)

lemma inv_count_moves:
  "tape_inv t \<Longrightarrow> count_moves leaves_bounds ms t = count_moves at_boundary ms t"
proof (induction ms arbitrary: t)
  case Nil
  show ?case by simp
next
  case (Cons mv ms)
  have "leaves_bounds mv t = at_boundary mv t"
    using Cons.prems boundary_leaves inv_leaves_boundary by blast
  with Cons.IH [OF tape_inv_move [OF Cons.prems]] show ?case by simp
qed

text \<open>
  Claim C6. After any sequence of moves the list is as long as before plus the number of
  boundary crossings of the sequence, hence at most the number of moves longer. A single
  move leaves the list alone unless it is a crossing, which adds one blank cell on the side
  crossed. The tape grows only when the head would otherwise leave the bounds, and on a tape
  satisfying \<open>tape_inv\<close> the crossings are exactly the moves that would leave the bounds.
\<close>

theorem growth_tracks_crossings:
  "length (tape_list (moves ms t)) = length (tape_list t) + count_moves at_boundary ms t
   \<and> length (tape_list (moves ms t)) \<le> length (tape_list t) + length ms
   \<and> tape_list (move mv t) =
       (if at_boundary mv t
        then (case mv of Go_left \<Rightarrow> None # tape_list t | Go_right \<Rightarrow> tape_list t @ [None])
        else tape_list t)
   \<and> (at_boundary mv t \<longrightarrow> leaves_bounds mv t)
   \<and> (tape_inv t \<longrightarrow> count_moves leaves_bounds ms t = count_moves at_boundary ms t)"
proof -
  have "length (tape_list (moves ms t)) \<le> length (tape_list t) + length ms"
    using count_moves_le [of at_boundary ms t] by (simp add: moves_length)
  then show ?thesis
    using moves_length move_list boundary_leaves inv_count_moves by blast
qed

text \<open>
  The theorem at the tape \<open>'ab'\<close>: one step left, three steps right, two crossings.
\<close>

theorem growth_tracks_crossings_witness:
  "tape_inv \<lparr>tape_list = [Some ''a'', Some ''b''], tape_loc = 0, tape_min_loc = 0, tape_max_loc = 1\<rparr>
   \<and> at_boundary Go_left
         \<lparr>tape_list = [Some ''a'', Some ''b''], tape_loc = 0, tape_min_loc = 0, tape_max_loc = 1\<rparr>
   \<and> leaves_bounds Go_left
         \<lparr>tape_list = [Some ''a'', Some ''b''], tape_loc = 0, tape_min_loc = 0, tape_max_loc = 1\<rparr>
   \<and> length (tape_list (moves [Go_left, Go_right, Go_right, Go_right]
         \<lparr>tape_list = [Some ''a'', Some ''b''], tape_loc = 0, tape_min_loc = 0, tape_max_loc = 1\<rparr>))
       = 2 + 2
   \<and> count_moves leaves_bounds [Go_left, Go_right, Go_right, Go_right]
         \<lparr>tape_list = [Some ''a'', Some ''b''], tape_loc = 0, tape_min_loc = 0, tape_max_loc = 1\<rparr>
       = 2"
proof -
  let ?T = "\<lparr>tape_list = [Some ''a'', Some ''b''], tape_loc = 0, tape_min_loc = 0,
             tape_max_loc = 1\<rparr>"
  let ?ms = "[Go_left, Go_right, Go_right, Go_right]"
  have inv: "tape_inv ?T" by (simp add: tape_inv_def head_in_bounds_def)
  have b: "at_boundary Go_left ?T" by simp
  from growth_tracks_crossings [of ?ms ?T Go_left] inv b
  have len: "length (tape_list (moves ?ms ?T))
               = length (tape_list ?T) + count_moves at_boundary ?ms ?T"
    and lv: "leaves_bounds Go_left ?T"
    and cnt: "count_moves leaves_bounds ?ms ?T = count_moves at_boundary ?ms ?T"
    by blast+
  have two: "count_moves at_boundary ?ms ?T = 2"
    by (simp add: move_left_def move_right_def expand_left_def expand_right_def get_max_loc_def)
  from inv b lv len cnt two show ?thesis by simp
qed

section \<open>The machine\<close>

subsection \<open>One step\<close>

lemma set_char_after_get_char:
  "get_char t = Inr c \<Longrightarrow> \<exists>t'. set_char v t = Inr t'"
  by (auto simp: get_char_def getitem_def set_char_def setitem_def split: if_splits)

lemma advance_raise_frame:
  "advance m = Inl (e, m') \<Longrightarrow> current_state m' = current_state m \<and> tape m' = tape m"
proof -
  assume a: "advance m = Inl (e, m')"
  show ?thesis
  proof (cases "get_char (tape m)")
    case (Inl x)
    with a show ?thesis by (simp add: advance_def)
  next
    case (Inr c)
    show ?thesis
    proof (cases "transition_fn m (current_state m, c)")
      case None
      with a Inr show ?thesis by (auto simp: advance_def)
    next
      case (Some entry)
      obtain ns out d where entry: "entry = (ns, out, d)" by (cases entry) auto
      obtain t where "set_char out (tape m) = Inr t"
        using set_char_after_get_char [OF Inr] by blast
      with a Inr Some entry show ?thesis
        by (simp add: advance_def Let_def split: if_splits)
    qed
  qed
qed

lemma advance_miss:
  "get_char (tape m) = Inr c \<Longrightarrow> transition_fn m (current_state m, c) = None \<Longrightarrow>
   advance m = Inl (KeyError, m\<lparr>current_input := c\<rparr>)"
  by (simp add: advance_def)

lemma advance_hit:
  assumes "get_char (tape m) = Inr c"
    and "transition_fn m (current_state m, c) = Some (ns, out, d)"
  shows "\<exists>t. set_char out (tape m) = Inr t \<and>
             advance m = Inr (m\<lparr>current_input := c, current_state := ns,
                                tape := (if d = right then move_right t
                                         else if d = left then move_left t else t)\<rparr>)"
proof -
  obtain t where "set_char out (tape m) = Inr t"
    using set_char_after_get_char [OF assms(1)] by blast
  with assms show ?thesis by (simp add: advance_def Let_def)
qed

text \<open>
  Claim C3. \<open>advance\<close> reads the cell at the head. If the table has no entry for the
  current state and that cell, it raises KeyError, having changed only \<open>current_input\<close>.
  Whenever \<open>advance\<close> raises, the control state and the tape (its cells and its head)
  are what they were. If the table has an entry, \<open>advance\<close> returns, with the state of
  the entry, its symbol written at the head and the head then moved as directed.
\<close>

theorem advance_lookup:
  "(get_char (tape m) = Inr c \<and> transition_fn m (current_state m, c) = None
      \<longrightarrow> advance m = Inl (KeyError, m\<lparr>current_input := c\<rparr>))
   \<and> (advance m = Inl (e, m')
      \<longrightarrow> current_state m' = current_state m \<and> tape m' = tape m)
   \<and> (get_char (tape m) = Inr c \<and> transition_fn m (current_state m, c) = Some (ns, out, d)
      \<longrightarrow> (\<exists>t. set_char out (tape m) = Inr t \<and>
             advance m = Inr (m\<lparr>current_input := c, current_state := ns,
                                tape := (if d = right then move_right t
                                         else if d = left then move_left t else t)\<rparr>)))"
  using advance_miss advance_raise_frame advance_hit by blast

text \<open>
  The theorem at a machine that misses (head on \<open>'b'\<close>, entry for \<open>'a'\<close> only) and at
  one that hits, writes and moves left across the boundary.
\<close>

theorem advance_lookup_witness:
  "advance \<lparr>tape = \<lparr>tape_list = [Some ''a'', Some ''b''], tape_loc = 1,
                         tape_min_loc = 0, tape_max_loc = 1\<rparr>,
            states = [0, 1], current_state = 0, current_input = Some ''a'',
            accepting_states = [1], rejecting_states = [],
            transition_fn = [(0, Some ''a'') \<mapsto> (1, Some ''x'', ''L'')]\<rparr>
     = Inl (KeyError,
            \<lparr>tape = \<lparr>tape_list = [Some ''a'', Some ''b''], tape_loc = 1,
                         tape_min_loc = 0, tape_max_loc = 1\<rparr>,
             states = [0, 1], current_state = 0, current_input = Some ''b'',
             accepting_states = [1], rejecting_states = [],
             transition_fn = [(0, Some ''a'') \<mapsto> (1, Some ''x'', ''L'')]\<rparr>)
   \<and> advance \<lparr>tape = \<lparr>tape_list = [Some ''a'', Some ''b''], tape_loc = 0,
                           tape_min_loc = 0, tape_max_loc = 1\<rparr>,
              states = [0, 1], current_state = 0, current_input = Some ''a'',
              accepting_states = [1], rejecting_states = [],
              transition_fn = [(0, Some ''a'') \<mapsto> (1, Some ''x'', ''L'')]\<rparr>
     = Inr \<lparr>tape = \<lparr>tape_list = [None, Some ''x'', Some ''b''], tape_loc = 0,
                         tape_min_loc = 0, tape_max_loc = 2\<rparr>,
            states = [0, 1], current_state = 1, current_input = Some ''a'',
            accepting_states = [1], rejecting_states = [],
            transition_fn = [(0, Some ''a'') \<mapsto> (1, Some ''x'', ''L'')]\<rparr>"
proof -
  let ?tf = "[(0::int, Some ''a'') \<mapsto> (1::int, Some ''x'', ''L'')]"
  let ?miss = "\<lparr>tape = \<lparr>tape_list = [Some ''a'', Some ''b''], tape_loc = 1,
                             tape_min_loc = 0, tape_max_loc = 1\<rparr>,
                states = [0, 1], current_state = 0, current_input = Some ''a'',
                accepting_states = [1], rejecting_states = [], transition_fn = ?tf\<rparr>"
  let ?hit = "\<lparr>tape = \<lparr>tape_list = [Some ''a'', Some ''b''], tape_loc = 0,
                            tape_min_loc = 0, tape_max_loc = 1\<rparr>,
               states = [0, 1], current_state = 0, current_input = Some ''a'',
               accepting_states = [1], rejecting_states = [], transition_fn = ?tf\<rparr>"
  have g1: "get_char (tape ?miss) = Inr (Some ''b'')"
    by (simp add: get_char_def getitem_def index_ok_def index_pos_def)
  have l1: "transition_fn ?miss (current_state ?miss, Some ''b'') = None" by simp
  have g2: "get_char (tape ?hit) = Inr (Some ''a'')"
    by (simp add: get_char_def getitem_def index_ok_def index_pos_def)
  have l2: "transition_fn ?hit (current_state ?hit, Some ''a'') = Some (1, Some ''x'', ''L'')"
    by simp
  have w: "set_char (Some ''x'') (tape ?hit)
             = Inr \<lparr>tape_list = [Some ''x'', Some ''b''], tape_loc = 0,
                    tape_min_loc = 0, tape_max_loc = 1\<rparr>"
    by (simp add: set_char_def setitem_def index_ok_def index_pos_def)
  from advance_lookup [of ?miss "Some ''b''"] g1 l1
  have a1: "advance ?miss = Inl (KeyError, ?miss\<lparr>current_input := Some ''b''\<rparr>)" by blast
  from advance_lookup [of ?hit "Some ''a''" _ _ 1 "Some ''x''" "''L''"] g2 l2
  obtain t where "set_char (Some ''x'') (tape ?hit) = Inr t"
    and "advance ?hit = Inr (?hit\<lparr>current_input := Some ''a'', current_state := 1,
                                  tape := (if ''L'' = right then move_right t
                                           else if ''L'' = left then move_left t else t)\<rparr>)"
    by blast
  with w have a2: "advance ?hit = Inr (?hit\<lparr>current_input := Some ''a'', current_state := 1,
          tape := move_left \<lparr>tape_list = [Some ''x'', Some ''b''], tape_loc = 0,
                    tape_min_loc = 0, tape_max_loc = 1\<rparr>\<rparr>)"
    by (simp add: right_def left_def)
  from a1 a2 show ?thesis
    by (simp add: move_left_def expand_left_def get_max_loc_def)
qed

lemma set_char_frame:
  "set_char v t = Inr t' \<Longrightarrow>
     tape_loc t' = tape_loc t \<and> length (tape_list t') = length (tape_list t)"
  by (auto simp: set_char_def setitem_def split: if_splits)

text \<open>
  Claim C10. When the entry chosen carries a direction that is none of \<open>'R'\<close>, \<open>'L'\<close>,
  \<open>'S'\<close>, \<open>advance\<close> returns: the state is updated and the symbol written, the head index
  and the length of the list are unchanged, and the machine is left as it is with
  \<open>'S'\<close> in that entry.
\<close>

theorem advance_unknown_direction:
  assumes "get_char (tape m) = Inr c"
    and "transition_fn m (current_state m, c) = Some (ns, out, d)"
    and "d \<noteq> right" and "d \<noteq> left" and "d \<noteq> stay"
  shows "\<exists>t. set_char out (tape m) = Inr t
           \<and> advance m = Inr (m\<lparr>current_input := c, current_state := ns, tape := t\<rparr>)
           \<and> tape_loc t = tape_loc (tape m)
           \<and> length (tape_list t) = length (tape_list (tape m))
           \<and> advance (m\<lparr>transition_fn := (transition_fn m)((current_state m, c) \<mapsto> (ns, out, stay))\<rparr>)
               = Inr (m\<lparr>transition_fn := (transition_fn m)((current_state m, c) \<mapsto> (ns, out, stay)),
                        current_input := c, current_state := ns, tape := t\<rparr>)"
proof -
  let ?ms = "m\<lparr>transition_fn := (transition_fn m)((current_state m, c) \<mapsto> (ns, out, stay))\<rparr>"
  obtain t where t: "set_char out (tape m) = Inr t"
    and adv: "advance m = Inr (m\<lparr>current_input := c, current_state := ns, tape := t\<rparr>)"
    using advance_hit [OF assms(1,2)] assms(3,4) by auto
  have "get_char (tape ?ms) = Inr c"
    and "transition_fn ?ms (current_state ?ms, c) = Some (ns, out, stay)"
    using assms(1) by simp_all
  from advance_hit [OF this] t
  have "advance ?ms = Inr (?ms\<lparr>current_input := c, current_state := ns, tape := t\<rparr>)"
    by (simp add: stay_def right_def left_def)
  with t adv set_char_frame [OF t] show ?thesis by auto
qed

text \<open>
  The theorem at an entry with direction \<open>'X'\<close>.
\<close>

theorem advance_unknown_direction_witness:
  "advance \<lparr>tape = \<lparr>tape_list = [Some ''a'', Some ''b''], tape_loc = 1,
                         tape_min_loc = 0, tape_max_loc = 1\<rparr>,
            states = [0, 1], current_state = 0, current_input = Some ''a'',
            accepting_states = [1], rejecting_states = [],
            transition_fn = [(0, Some ''b'') \<mapsto> (1, Some ''x'', ''X'')]\<rparr>
     = Inr \<lparr>tape = \<lparr>tape_list = [Some ''a'', Some ''x''], tape_loc = 1,
                         tape_min_loc = 0, tape_max_loc = 1\<rparr>,
            states = [0, 1], current_state = 1, current_input = Some ''b'',
            accepting_states = [1], rejecting_states = [],
            transition_fn = [(0, Some ''b'') \<mapsto> (1, Some ''x'', ''X'')]\<rparr>"
proof -
  let ?M = "\<lparr>tape = \<lparr>tape_list = [Some ''a'', Some ''b''], tape_loc = 1,
                          tape_min_loc = 0, tape_max_loc = 1\<rparr>,
             states = [0, 1], current_state = 0, current_input = Some ''a'',
             accepting_states = [1], rejecting_states = [],
             transition_fn = [(0::int, Some ''b'') \<mapsto> (1::int, Some ''x'', ''X'')]\<rparr>"
  have g: "get_char (tape ?M) = Inr (Some ''b'')"
    by (simp add: get_char_def getitem_def index_ok_def index_pos_def)
  have l: "transition_fn ?M (current_state ?M, Some ''b'') = Some (1, Some ''x'', ''X'')"
    by simp
  have d: "''X'' \<noteq> right" "''X'' \<noteq> left" "''X'' \<noteq> stay"
    by (simp_all add: right_def left_def stay_def)
  have w: "set_char (Some ''x'') (tape ?M)
             = Inr \<lparr>tape_list = [Some ''a'', Some ''x''], tape_loc = 1,
                    tape_min_loc = 0, tape_max_loc = 1\<rparr>"
    by (simp add: set_char_def setitem_def index_ok_def index_pos_def)
  from advance_unknown_direction [OF g l d] w show ?thesis by auto
qed

subsection \<open>The loop\<close>

lemma run_loop_accepting:
  "accepting m \<Longrightarrow> run_loop m d p out = Some (out, m, Inr (get_string (tape m)))"
  by (subst run_loop.simps) (simp add: accepting_def)

lemma run_loop_step:
  assumes "\<not> accepting m" and "advance m = Inr m1" and "p \<longrightarrow> config_lookup_ok m1"
  shows "\<exists>d' x. run_loop m d p out = run_loop m1 d' p (out @ x)
               \<and> length x = (if p \<or> d then 1 else 0) \<and> (p \<or> d') = (p \<or> d)"
proof (cases p)
  case True
  with assms(3) obtain ns ou dir
    where "transition_fn m1 (current_state m1, current_input m1) = Some (ns, ou, dir)"
    by (auto simp: config_lookup_ok_def)
  with True assms(1,2)
  have "run_loop m d p out =
          run_loop m1 False p (out @ [Config (current_state m1) (current_input m1) ou ns dir])"
    by (subst run_loop.simps) (simp add: accepting_def)
  with True show ?thesis by force
next
  case False
  show ?thesis
  proof (cases d)
    case True
    with False assms(1,2)
    have "run_loop m d p out = run_loop m1 d p (out @ [Drawn (draw (tape m1))])"
      by (subst run_loop.simps) (simp add: accepting_def)
    with True show ?thesis by force
  next
    case d: False
    with False assms(1,2)
    have "run_loop m d p out = run_loop m1 d p (out @ [])"
      by (subst run_loop.simps) (simp add: accepting_def)
    with False d show ?thesis by force
  qed
qed

lemma run_loop_steps:
  assumes "advance_n n m = Inr m'"
    and "\<forall>k<n. \<forall>mk. advance_n k m = Inr mk \<longrightarrow> \<not> accepting mk"
    and "accepting m'"
    and "p \<longrightarrow> (\<forall>k mk. 0 < k \<and> k \<le> n \<and> advance_n k m = Inr mk \<longrightarrow> config_lookup_ok mk)"
  shows "\<exists>out'. run_loop m d p out = Some (out', m', Inr (get_string (tape m')))
               \<and> length out' = length out + (if p \<or> d then n else 0)"
  using assms
proof (induction n arbitrary: m d out)
  case 0
  then show ?case by (simp add: run_loop_accepting)
next
  case (Suc n)
  from Suc.prems(2) have na: "\<not> accepting m" by force
  from Suc.prems(1) obtain m1 where m1: "advance m = Inr m1" and rest: "advance_n n m1 = Inr m'"
    by (auto split: sum.splits)
  have ok1: "p \<longrightarrow> config_lookup_ok m1"
    using Suc.prems(4) m1 by (auto dest: spec [where x = 1])
  from run_loop_step [OF na m1 ok1, of d out]
  obtain d' x where step: "run_loop m d p out = run_loop m1 d' p (out @ x)"
    and len: "length x = (if p \<or> d then 1 else 0)" and fl: "(p \<or> d') = (p \<or> d)"
    by blast
  have h2: "\<forall>k<n. \<forall>mk. advance_n k m1 = Inr mk \<longrightarrow> \<not> accepting mk"
  proof (intro allI impI)
    fix k mk assume "k < n" "advance_n k m1 = Inr mk"
    then have "Suc k < Suc n" "advance_n (Suc k) m = Inr mk" using m1 by simp_all
    with Suc.prems(2) show "\<not> accepting mk" by blast
  qed
  have h4: "p \<longrightarrow> (\<forall>k mk. 0 < k \<and> k \<le> n \<and> advance_n k m1 = Inr mk \<longrightarrow> config_lookup_ok mk)"
  proof (intro allI impI)
    fix k mk assume p and k: "0 < k \<and> k \<le> n \<and> advance_n k m1 = Inr mk"
    then have "0 < Suc k \<and> Suc k \<le> Suc n \<and> advance_n (Suc k) m = Inr mk" using m1 by simp
    with Suc.prems(4) \<open>p\<close> show "config_lookup_ok mk" by blast
  qed
  from Suc.IH [OF rest h2 Suc.prems(3) h4, of d' "out @ x"]
  obtain out' where "run_loop m1 d' p (out @ x) = Some (out', m', Inr (get_string (tape m')))"
    and "length out' = length (out @ x) + (if p \<or> d' then n else 0)" by blast
  with step len fl show ?case by auto
qed

lemma run_ends_shift:
  "advance m = Inr m1 \<Longrightarrow> run_ends n m1 p y \<Longrightarrow> run_ends (Suc n) m p y"
  by (simp add: run_ends_def split: prod.splits sum.splits)

lemma run_loop_Some:
  assumes "run_loop m d p out = Some y"
  shows "\<exists>n. run_ends n m p y"
proof (rule run_loop.raw_induct [OF _ assms], goal_cases)
  case (1 f m d p out y)
  show ?case
  proof (cases "current_state m \<in> set (accepting_states m)")
    case True
    with 1(2) have "run_ends 0 m p y" by (auto simp: run_ends_def accepting_def)
    then show ?thesis ..
  next
    case na: False
    show ?thesis
    proof (cases "advance m")
      case (Inl x)
      with na 1(2) have "run_ends 0 m p y" by (cases x) (auto simp: run_ends_def)
      then show ?thesis ..
    next
      case (Inr m1)
      show ?thesis
      proof (cases "p \<and> transition_fn m1 (current_state m1, current_input m1) = None")
        case True
        with na Inr 1(2) have "run_ends 0 m p y"
          by (auto simp: run_ends_def config_lookup_ok_def)
        then show ?thesis ..
      next
        case False
        with na Inr 1(2) obtain d' out' where "f m1 d' p out' = Some y"
          by (auto split: if_splits)
        from 1(1) [OF this] obtain n where "run_ends n m1 p y" ..
        from run_ends_shift [OF Inr this] show ?thesis ..
      qed
    qed
  qed
qed

lemma run_loop_forever:
  assumes "\<forall>n. \<exists>mn. advance_n n m = Inr mn \<and> \<not> accepting mn"
    and "p \<longrightarrow> (\<forall>n mn. 0 < n \<and> advance_n n m = Inr mn \<longrightarrow> config_lookup_ok mn)"
  shows "run_loop m d p out = None"
proof (rule ccontr)
  assume "run_loop m d p out \<noteq> None"
  then obtain out' m' r where "run_loop m d p out = Some (out', m', r)" by auto
  from run_loop_Some [OF this] obtain n where n: "run_ends n m p (out', m', r)" ..
  show False
  proof (cases r)
    case (Inr s)
    with n have "advance_n n m = Inr m'" "accepting m'" by (simp_all add: run_ends_def)
    with assms(1) show False by (metis sum.inject(2))
  next
    case (Inl e)
    with n have "advance_n (Suc n) m = Inl (e, m')
        \<or> (p \<and> advance_n (Suc n) m = Inr m' \<and> \<not> config_lookup_ok m')"
      by (auto simp: run_ends_def)
    then show False
    proof
      assume "advance_n (Suc n) m = Inl (e, m')"
      with assms(1) show False by (metis sum.distinct(1))
    next
      assume "p \<and> advance_n (Suc n) m = Inr m' \<and> \<not> config_lookup_ok m'"
      with assms(2) show False by blast
    qed
  qed
qed

lemma advance_rejecting:
  "advance (m\<lparr>rejecting_states := R\<rparr>) =
     (case advance m of
        Inl (e, m1) \<Rightarrow> Inl (e, m1\<lparr>rejecting_states := R\<rparr>)
      | Inr m1 \<Rightarrow> Inr (m1\<lparr>rejecting_states := R\<rparr>))"
  by (simp add: advance_def Let_def split: sum.splits option.splits prod.splits)

lemma run_loop_rejecting_Some:
  assumes "run_loop m d p out = Some y"
  shows "run_loop (m\<lparr>rejecting_states := R\<rparr>) d p out
           = Some (case y of (out', m', r) \<Rightarrow> (out', m'\<lparr>rejecting_states := R\<rparr>, r))"
proof (rule run_loop.raw_induct [OF _ assms], goal_cases)
  case (1 f m d p out y)
  show ?case
  proof (cases "current_state m \<in> set (accepting_states m)")
    case True
    with 1(2) show ?thesis by (subst run_loop.simps) auto
  next
    case na: False
    show ?thesis
    proof (cases "advance m")
      case (Inl x)
      with na 1(2) show ?thesis
        by (subst run_loop.simps) (cases x, auto simp: advance_rejecting)
    next
      case (Inr m1)
      show ?thesis
      proof (cases "p \<and> transition_fn m1 (current_state m1, current_input m1) = None")
        case True
        with na Inr 1(2) show ?thesis
          by (subst run_loop.simps) (auto simp: advance_rejecting)
      next
        case False
        with na Inr 1(2) show ?thesis
          by (subst run_loop.simps) (auto simp: advance_rejecting 1(1) split: if_splits)
      qed
    qed
  qed
qed

lemma run_loop_rejecting:
  "run_loop (m\<lparr>rejecting_states := R\<rparr>) d p out
     = map_option (\<lambda>(out', m', r). (out', m'\<lparr>rejecting_states := R\<rparr>, r)) (run_loop m d p out)"
proof (cases "run_loop m d p out")
  case (Some y)
  from run_loop_rejecting_Some [OF this] Some show ?thesis by simp
next
  case None
  have "run_loop (m\<lparr>rejecting_states := R\<rparr>) d p out = None"
  proof (rule ccontr)
    assume "run_loop (m\<lparr>rejecting_states := R\<rparr>) d p out \<noteq> None"
    then obtain y where "run_loop (m\<lparr>rejecting_states := R\<rparr>) d p out = Some y" by auto
    from run_loop_rejecting_Some [OF this, of "rejecting_states m"] None
    show False by simp
  qed
  with None show ?thesis by simp
qed

lemmas tape_eval = advance_def get_char_def set_char_def getitem_def setitem_def index_ok_def
  index_pos_def move_left_def move_right_def expand_left_def expand_right_def get_max_loc_def
  right_def left_def stay_def accepting_def config_lookup_ok_def

text \<open>
  What the loop does as long as the lookup of the \<open>print_configs\<close> branch finds an
  entry, which is always so when the flag is off. If the state is accepting when \<open>run\<close>
  is called, it returns the serialization of the tape at once, with the machine untouched
  and nothing printed. If \<open>n\<close> calls of \<open>advance\<close> succeed, the state is not accepting
  before any of them and is accepting after the last, then \<open>run\<close> returns the
  serialization of the tape those \<open>n\<close> calls leave, having gone through the loop
  \<open>n\<close> times.
\<close>

lemma run_until_accepting:
  "(accepting m \<longrightarrow> run m d p = Some ([], m, Inr (get_string (tape m))))
   \<and> (advance_n n m = Inr m'
        \<and> (\<forall>k<n. \<forall>mk. advance_n k m = Inr mk \<longrightarrow> \<not> accepting mk)
        \<and> accepting m'
        \<and> (p \<longrightarrow> (\<forall>k mk. 0 < k \<and> k \<le> n \<and> advance_n k m = Inr mk
                                \<longrightarrow> config_lookup_ok mk))
      \<longrightarrow> (\<exists>out. run m d p = Some (out, m', Inr (get_string (tape m')))
                  \<and> length out = (if p \<or> d then n else 0)))"
  using run_loop_accepting [of m d p "[]"] run_loop_steps [of n m m' p d "[]"]
  by (simp add: run_def)

text \<open>
  \<open>run\<close> returns only in an accepting state, and the list of rejecting states has no
  effect on what \<open>run\<close> does. A machine whose steps all succeed without ever reaching an
  accepting state, whether or not it enters a rejecting one, is never left by \<open>run\<close>, as
  long as the lookup of the \<open>print_configs\<close> branch finds an entry.
\<close>

lemma run_halts_only_on_accepting:
  "(run m d p = Some (out, m', Inr s) \<longrightarrow> accepting m')
   \<and> run (m\<lparr>rejecting_states := R\<rparr>) d p
       = map_option (\<lambda>(out', m'', r). (out', m''\<lparr>rejecting_states := R\<rparr>, r)) (run m d p)
   \<and> ((\<forall>n. \<exists>mn. advance_n n m = Inr mn \<and> \<not> accepting mn)
        \<and> (p \<longrightarrow> (\<forall>n mn. 0 < n \<and> advance_n n m = Inr mn \<longrightarrow> config_lookup_ok mn))
      \<longrightarrow> run m d p = None)"
proof -
  have "accepting m'" if "run m d p = Some (out, m', Inr s)"
  proof -
    from that obtain n where "run_ends n m p (out, m', Inr s)"
      using run_loop_Some unfolding run_def by blast
    then show ?thesis by (simp add: run_ends_def)
  qed
  then show ?thesis
    using run_loop_rejecting [where m = m and R = R and d = d and p = p and out = "[]"]
      run_loop_forever [where m = m and p = p and d = d and out = "[]"]
    by (simp add: run_def)
qed

text \<open>
  Claim C2 does not hold of the code when \<open>print_configs\<close> is on. On the tape \<open>'a'\<close> with
  the single entry \<open>(0, 'a') \<rightarrow> (1, 'b', 'S')\<close> and 1 accepting, one step reaches the
  accepting state. Without the flag \<open>run\<close> returns \<open>'b'\<close>, as the claim says. With it, the
  loop body looks up \<open>(current_state, current_input)\<close>, which is \<open>(1, 'a')\<close> after the
  step, and raises KeyError before the loop test is reached: \<open>run\<close> does not return the
  serialization. The machine of the demonstration does the same on \<open>'hello'\<close>: it reaches
  the accepting state 2 with \<open>'mjqqt'\<close> on the tape and raises on \<open>(2, None)\<close>.
\<close>

theorem run_print_configs_raises_on_accepting:
  "map_option (\<lambda>(out, m', r). (out, current_state m', r))
     (run \<lparr>tape = Tape_init (Some ''a'') None, states = [0, 1], current_state = 0,
           current_input = Some ''a'', accepting_states = [1], rejecting_states = [],
           transition_fn = [(0, Some ''a'') \<mapsto> (1, Some ''b'', ''S'')]\<rparr> False True)
     = Some ([], 1, Inl KeyError)
   \<and> map_option (\<lambda>(out, m', r). (out, current_state m', r))
     (run \<lparr>tape = Tape_init (Some ''a'') None, states = [0, 1], current_state = 0,
           current_input = Some ''a'', accepting_states = [1], rejecting_states = [],
           transition_fn = [(0, Some ''a'') \<mapsto> (1, Some ''b'', ''S'')]\<rparr> False False)
     = Some ([], 1, Inr ''b'')
   \<and> (case demo_machine ''hello'' 5 of
        Inl e \<Rightarrow> False
      | Inr m \<Rightarrow> map_option (\<lambda>(out, m', r). (current_state m', get_string (tape m'), r))
                    (run m True True) = Some (2, ''mjqqt'', Inl KeyError))"
  by code_simp

text \<open>
  Claim C4 does not hold of the code when \<open>print_configs\<close> is on. On the tape \<open>'ab'\<close>
  with the entries \<open>(0, 'a') \<rightarrow> (1, 'a', 'R')\<close> and \<open>(1, 'b') \<rightarrow> (1, 'b', 'S')\<close>, 2 accepting
  and 1 rejecting, every step succeeds, the machine enters the rejecting state 1 and never
  an accepting one. Without the flag \<open>run\<close> never returns, as the claim says. With it, the
  loop body looks up \<open>(1, 'a')\<close> after the first step and raises KeyError, in the
  rejecting state: the run ends.
\<close>

theorem run_print_configs_raises_instead_of_looping:
  "run \<lparr>tape = Tape_init (Some ''ab'') None, states = [0, 1, 2], current_state = 0,
        current_input = Some ''a'', accepting_states = [2], rejecting_states = [1],
        transition_fn = [(0, Some ''a'') \<mapsto> (1, Some ''a'', ''R''),
                         (1, Some ''b'') \<mapsto> (1, Some ''b'', ''S'')]\<rparr> False False = None
   \<and> map_option (\<lambda>(out, m', r). (out, current_state m', r))
       (run \<lparr>tape = Tape_init (Some ''ab'') None, states = [0, 1, 2], current_state = 0,
             current_input = Some ''a'', accepting_states = [2], rejecting_states = [1],
             transition_fn = [(0, Some ''a'') \<mapsto> (1, Some ''a'', ''R''),
                              (1, Some ''b'') \<mapsto> (1, Some ''b'', ''S'')]\<rparr> False True)
       = Some ([], 1, Inl KeyError)"
proof -
  let ?tf = "[(0::int, Some ''a'') \<mapsto> (1::int, Some ''a'', ''R''),
              (1, Some ''b'') \<mapsto> (1, Some ''b'', ''S'')]"
  let ?M = "\<lparr>tape = Tape_init (Some ''ab'') None, states = [0, 1, 2], current_state = 0,
             current_input = Some ''a'', accepting_states = [2], rejecting_states = [1],
             transition_fn = ?tf\<rparr>"
  let ?M1 = "\<lparr>tape = \<lparr>tape_list = [Some ''a'', Some ''b''], tape_loc = 1, tape_min_loc = 0,
                      tape_max_loc = 1\<rparr>,
              states = [0, 1, 2], current_state = 1, current_input = Some ''a'',
              accepting_states = [2], rejecting_states = [1], transition_fn = ?tf\<rparr>"
  let ?M2 = "\<lparr>tape = \<lparr>tape_list = [Some ''a'', Some ''b''], tape_loc = 1, tape_min_loc = 0,
                      tape_max_loc = 1\<rparr>,
              states = [0, 1, 2], current_state = 1, current_input = Some ''b'',
              accepting_states = [2], rejecting_states = [1], transition_fn = ?tf\<rparr>"
  have s0: "advance ?M = Inr ?M1" by (simp add: tape_eval Tape_init_def)
  have s1: "advance ?M1 = Inr ?M2" by (simp add: tape_eval)
  have s2: "advance ?M2 = Inr ?M2" by (simp add: tape_eval)
  have loop: "advance_n n ?M2 = Inr ?M2" for n
    by (induction n) (simp_all only: advance_n.simps s2 sum.case)
  have na: "\<not> accepting ?M" "\<not> accepting ?M1" "\<not> accepting ?M2"
    by (simp_all add: accepting_def)
  have "\<exists>mn. advance_n n ?M = Inr mn \<and> \<not> accepting mn" for n
  proof (cases n)
    case 0
    have "advance_n 0 ?M = Inr ?M" by (simp only: advance_n.simps)
    with 0 na(1) show ?thesis by blast
  next
    case (Suc k)
    show ?thesis
    proof (cases k)
      case 0
      have "advance_n (Suc 0) ?M = Inr ?M1" by (simp only: advance_n.simps s0 sum.case)
      with 0 Suc na(2) show ?thesis by blast
    next
      case (Suc j)
      have "advance_n (Suc (Suc j)) ?M = Inr ?M2"
        by (simp only: advance_n.simps s0 s1 loop sum.case)
      with Suc \<open>n = Suc k\<close> na(3) show ?thesis by blast
    qed
  qed
  then have "\<forall>n. \<exists>mn. advance_n n ?M = Inr mn \<and> \<not> accepting mn" ..
  then have never: "run ?M False False = None"
    unfolding run_def by (rule run_loop_forever) simp
  have raises: "map_option (\<lambda>(out, m', r). (out, current_state m', r)) (run ?M False True)
                  = Some ([], 1, Inl KeyError)"
    by code_simp
  from never raises show ?thesis ..
qed

text \<open>
  Claim C5 does not hold of the code. After \<open>advance\<close> the attribute
  \<open>current_state\<close> is already the next state, and \<open>run\<close> looks up
  \<open>(current_state, current_input)\<close> to print. On the tape \<open>'ab'\<close> below the first step
  takes \<open>(0, 'a') \<rightarrow> (1, 'x', 'R')\<close>, for which the claim asks the line
  \<open>(0, a, x, 1, R)\<close>; the code prints \<open>(1, a, q, 0, L)\<close>, from the entry of \<open>(1, 'a')\<close>.
  The second step takes \<open>(1, 'b') \<rightarrow> (2, 'y', 'S')\<close> into the accepting state 2, and the
  lookup of \<open>(2, 'b')\<close> raises KeyError instead of printing.
\<close>

theorem print_configs_looks_up_after_the_step:
  "map_option (\<lambda>(out, m', r). (out, r))
     (run \<lparr>tape = Tape_init (Some ''ab'') None, states = [0, 1, 2], current_state = 0,
           current_input = Some ''a'', accepting_states = [2], rejecting_states = [],
           transition_fn = [(0, Some ''a'') \<mapsto> (1, Some ''x'', ''R''),
                            (1, Some ''a'') \<mapsto> (0, Some ''q'', ''L''),
                            (1, Some ''b'') \<mapsto> (2, Some ''y'', ''S'')]\<rparr> False True)
   = Some ([Config 1 (Some ''a'') (Some ''q'') 0 ''L''], Inl KeyError)"
  by code_simp

section \<open>The demonstration\<close>

text \<open>
  Claim C8. Encrypting \<open>'hello world'\<close> with shift 5 and decrypting the result with the
  table for shift -5 gives \<open>'hello world'\<close> back; the ciphertext keeps the space in its
  place and wraps \<open>'w'\<close> to \<open>'b'\<close>.
\<close>

theorem cipher_round_trip:
  "main ''hello world'' 5 = Some (Inr (''mjqqt btwqi'', ''hello world''))"
  by code_simp

end
